theory Spec2Isabelle
  imports Main
begin

section \<open>The periodic timer of MaidSafe-CRUX\<close>

text \<open>
  A model of \<^verbatim>\<open>maidsafe::crux::detail::periodic_timer\<close>
  (\<^verbatim>\<open>include/maidsafe/crux/detail/periodic_timer.hpp\<close>). The class is a record,
  each member function a function from the object to the object after the call. The
  Boost.Asio \<^verbatim>\<open>steady_timer\<close> member is the list of asynchronous waits that were
  started on it and whose completion has not been delivered yet.
\<close>

subsection \<open>Data\<close>

text \<open>The private enum \<^verbatim>\<open>state_type\<close>, in the order of the source.\<close>

datatype state_type =
    stopped
  | running
  | executing
  | canceling_to_stop
  | canceling_to_start
  | canceling_to_ff

text \<open>
  The handler is user code (\<^verbatim>\<open>std::function<void()>\<close>). What matters of its body is
  the sequence of calls it makes on its own timer, so a body is the list of these calls;
  an empty \<^verbatim>\<open>std::function\<close> is \<open>None\<close>. \<open>call_destroy\<close> is the handler destroying
  the timer object. A body does not run the reactor itself: completions are delivered
  between calls of the client, never inside one.
\<close>

datatype action =
    call_set_period nat
  | call_set_handler "action list option"
  | call_start
  | call_stop
  | call_fast_forward
  | call_destroy

type_synonym handler_type = "action list option"

text \<open>
  An asynchronous wait outstanding on the \<^verbatim>\<open>steady_timer\<close>: the duration it was
  started with, and whether its cancellation has been requested. A cancelled wait stays
  outstanding until the reactor has delivered its completion.
\<close>

type_synonym wait_op = "nat \<times> bool"

text \<open>
  What the object does to the outside is kept in a trace: each wait it starts (with its
  duration and the number of waits outstanding when \<^verbatim>\<open>do_start\<close> was entered), each
  \<^verbatim>\<open>timer.cancel()\<close>, each invocation of a handler body, and the write of the
  \<^verbatim>\<open>was_destroyed\<close> flag.
\<close>

datatype trace_entry =
    wait_scheduled nat nat
  | cancel_called
  | handler_invoked "action list"
  | token_set

record periodic_timer =
  state :: state_type
  period_duration :: nat
  timer :: "wait_op list"
  handler :: handler_type
  was_destroyed :: bool
  trace :: "trace_entry list"

text \<open>
  Two ways for the program to leave the language's defined behaviour: a failed
  \<^verbatim>\<open>assert\<close> aborts it, and a read of a member of an object that has been destroyed
  is a use of freed storage.
\<close>

datatype error = assertion_failed | use_after_destroy

subsection \<open>Constructors, destructor, setters\<close>

text \<open>
  Neither constructor initialises \<^verbatim>\<open>period_duration\<close>; the value it happens to hold
  is the parameter \<open>p\<close>.
\<close>

definition periodic_timer_ctor :: "nat \<Rightarrow> periodic_timer" where
  "periodic_timer_ctor p =
     \<lparr>state = stopped, period_duration = p, timer = [], handler = None,
      was_destroyed = False, trace = []\<rparr>"

definition periodic_timer_ctor_handler :: "nat \<Rightarrow> handler_type \<Rightarrow> periodic_timer" where
  "periodic_timer_ctor_handler p h =
     \<lparr>state = stopped, period_duration = p, timer = [], handler = h,
      was_destroyed = False, trace = []\<rparr>"

definition set_period :: "nat \<Rightarrow> periodic_timer \<Rightarrow> periodic_timer" where
  "set_period duration t = t\<lparr>period_duration := duration\<rparr>"

definition set_handler :: "handler_type \<Rightarrow> periodic_timer \<Rightarrow> periodic_timer" where
  "set_handler h t = t\<lparr>handler := h\<rparr>"

subsection \<open>The state machine\<close>

text \<open>\<^verbatim>\<open>timer.cancel()\<close> requests the cancellation of every outstanding wait.\<close>

definition timer_cancel :: "wait_op list \<Rightarrow> wait_op list" where
  "timer_cancel ws = map (\<lambda>w. (fst w, True)) ws"

text \<open>
  \<^verbatim>\<open>do_start\<close>: \<^verbatim>\<open>expires_from_now\<close> cancels the waits still outstanding on the
  timer, \<^verbatim>\<open>async_wait\<close> starts a new one.
\<close>

definition do_start :: "periodic_timer \<Rightarrow> periodic_timer" where
  "do_start t =
     t\<lparr>state := running,
       timer := timer_cancel (timer t) @ [(period_duration t, False)],
       trace := trace t @ [wait_scheduled (period_duration t) (length (timer t))]\<rparr>"

definition stop :: "periodic_timer \<Rightarrow> periodic_timer" where
  "stop t =
     (case state t of
        stopped \<Rightarrow> t
      | running \<Rightarrow>
          t\<lparr>state := canceling_to_stop,
            timer := timer_cancel (timer t),
            trace := trace t @ [cancel_called]\<rparr>
      | executing \<Rightarrow> t\<lparr>state := stopped\<rparr>
      | canceling_to_stop \<Rightarrow> t
      | canceling_to_start \<Rightarrow> t\<lparr>state := canceling_to_stop\<rparr>
      | canceling_to_ff \<Rightarrow> t\<lparr>state := canceling_to_stop\<rparr>)"

function start :: "periodic_timer \<Rightarrow> periodic_timer" where
  "start t =
     (case state t of
        stopped \<Rightarrow> do_start t
      | running \<Rightarrow> start (stop t)
      | executing \<Rightarrow> do_start t
      | canceling_to_stop \<Rightarrow> t\<lparr>state := canceling_to_start\<rparr>
      | canceling_to_start \<Rightarrow> t
      | canceling_to_ff \<Rightarrow> t\<lparr>state := canceling_to_start\<rparr>)"
  by pat_completeness auto
termination
  by (relation "measure (\<lambda>t. if state t = running then 1 else 0)")
     (auto simp: stop_def)

declare start.simps [simp del]

definition fast_forward :: "periodic_timer \<Rightarrow> periodic_timer" where
  "fast_forward t = (stop (start t))\<lparr>state := canceling_to_ff\<rparr>"

text \<open>The destructor: \<^verbatim>\<open>stop(); *was_destroyed = true;\<close>\<close>

definition destructor :: "periodic_timer \<Rightarrow> periodic_timer" where
  "destructor t =
     (let t1 = stop t
      in t1\<lparr>was_destroyed := True, trace := trace t1 @ [token_set]\<rparr>)"

subsection \<open>Running a handler body\<close>

fun perform :: "action \<Rightarrow> periodic_timer \<Rightarrow> periodic_timer" where
  "perform (call_set_period d) t = set_period d t"
| "perform (call_set_handler h) t = set_handler h t"
| "perform call_start t = start t"
| "perform call_stop t = stop t"
| "perform call_fast_forward t = fast_forward t"
| "perform call_destroy t = destructor t"

text \<open>
  A body makes its calls in order. Once the object is destroyed the body may not touch
  it any more: its remaining calls are not made.
\<close>

fun run_handler :: "action list \<Rightarrow> periodic_timer \<Rightarrow> periodic_timer" where
  "run_handler [] t = t"
| "run_handler (a # as) t =
     (if was_destroyed t then t else run_handler as (perform a t))"

text \<open>\<^verbatim>\<open>local_handler()\<close>: the invocation of a copy of the handler.\<close>

definition invoke :: "action list \<Rightarrow> periodic_timer \<Rightarrow> periodic_timer" where
  "invoke local_handler t =
     run_handler local_handler (t\<lparr>trace := trace t @ [handler_invoked local_handler]\<rparr>)"

subsection \<open>The tick\<close>

text \<open>
  Only a handler body can destroy the object, so the one place in the class where the
  object may be gone while a member function is still running is after
  \<^verbatim>\<open>local_handler()\<close> has returned. The member \<^verbatim>\<open>state\<close> read there is read
  through \<open>this_state\<close>: of a destroyed object the read is an error.
\<close>

definition this_state :: "periodic_timer \<Rightarrow> error + state_type" where
  "this_state t = (if was_destroyed t then Inl use_after_destroy else Inr (state t))"

text \<open>
  The part of \<^verbatim>\<open>do_handle_tick\<close> after the switch. \<^verbatim>\<open>*was_destroyed_copy\<close> reads
  the shared flag, not the object. With no handler set nothing is called, and the
  object is as it was when the tick began.
\<close>

definition execute :: "periodic_timer \<Rightarrow> error + periodic_timer" where
  "execute t =
     (let t1 = t\<lparr>state := executing\<rparr>
      in case handler t1 of
           None \<Rightarrow> Inr (if state t1 = executing then start t1 else t1)
         | Some local_handler \<Rightarrow>
             (let t2 = invoke local_handler t1
              in if was_destroyed t2 then Inr t2
                 else (case this_state t2 of
                         Inl e \<Rightarrow> Inl e
                       | Inr s \<Rightarrow> Inr (if s = executing then start t2 else t2))))"

text \<open>
  \<^verbatim>\<open>do_handle_tick\<close>. The build is a parameter: \<open>ndebug\<close> says that the macro
  \<^verbatim>\<open>NDEBUG\<close> is defined. Then \<^verbatim>\<open>assert(0)\<close> expands to nothing, and the
  \<^verbatim>\<open>break\<close> after it leads to the execution step, as in the states
  \<^verbatim>\<open>running\<close> and \<^verbatim>\<open>canceling_to_ff\<close>. Without the macro the assertion aborts.
\<close>

definition do_handle_tick :: "bool \<Rightarrow> periodic_timer \<Rightarrow> error + periodic_timer" where
  "do_handle_tick ndebug t =
     (case state t of
        stopped \<Rightarrow> Inr t
      | running \<Rightarrow> execute t
      | executing \<Rightarrow> (if ndebug then execute t else Inl assertion_failed)
      | canceling_to_stop \<Rightarrow> Inr (t\<lparr>state := stopped\<rparr>)
      | canceling_to_start \<Rightarrow> Inr (do_start t)
      | canceling_to_ff \<Rightarrow> execute t)"

text \<open>
  The completion callback that \<^verbatim>\<open>do_start\<close> hands to \<^verbatim>\<open>async_wait\<close>. It ignores
  the error code.
\<close>

definition wait_handler :: "bool \<Rightarrow> periodic_timer \<Rightarrow> error + periodic_timer" where
  "wait_handler ndebug t = (if was_destroyed t then Inr t else do_handle_tick ndebug t)"

subsection \<open>The reactor and the client\<close>

text \<open>
  The reactor delivers the completion of one outstanding wait: the wait leaves the
  timer and the callback runs. There is nothing to deliver at an index out of range.
\<close>

definition deliver :: "bool \<Rightarrow> nat \<Rightarrow> periodic_timer \<Rightarrow> error + periodic_timer" where
  "deliver ndebug i t =
     (if i < length (timer t)
      then wait_handler ndebug (t\<lparr>timer := take i (timer t) @ drop (Suc i) (timer t)\<rparr>)
      else Inr t)"

text \<open>
  An event is a call of the client on the object, or a delivery of the reactor. Both run
  on the one thread of the reactor, so events follow each other. A client does not call
  a destroyed object.
\<close>

datatype event = client action | completion nat

fun step :: "bool \<Rightarrow> event \<Rightarrow> periodic_timer \<Rightarrow> error + periodic_timer" where
  "step ndebug (client a) t = Inr (if was_destroyed t then t else perform a t)"
| "step ndebug (completion i) t = deliver ndebug i t"

fun run :: "bool \<Rightarrow> event list \<Rightarrow> periodic_timer \<Rightarrow> error + periodic_timer" where
  "run ndebug [] t = Inr t"
| "run ndebug (e # es) t =
     (case step ndebug e t of Inl x \<Rightarrow> Inl x | Inr t' \<Rightarrow> run ndebug es t')"

subsection \<open>Observations\<close>

text \<open>The handler bodies invoked, in order.\<close>

fun invocations :: "trace_entry list \<Rightarrow> action list list" where
  "invocations [] = []"
| "invocations (handler_invoked b # es) = b # invocations es"
| "invocations (_ # es) = invocations es"

text \<open>
  The largest number of waits that were outstanding at an entry into \<^verbatim>\<open>do_start\<close>.
\<close>

fun most_outstanding_at_start :: "trace_entry list \<Rightarrow> nat" where
  "most_outstanding_at_start [] = 0"
| "most_outstanding_at_start (wait_scheduled d k # es) = max k (most_outstanding_at_start es)"
| "most_outstanding_at_start (_ # es) = most_outstanding_at_start es"

fun cancellations :: "trace_entry list \<Rightarrow> nat" where
  "cancellations [] = 0"
| "cancellations (cancel_called # es) = Suc (cancellations es)"
| "cancellations (_ # es) = cancellations es"

fun token_writes :: "trace_entry list \<Rightarrow> nat" where
  "token_writes [] = 0"
| "token_writes (token_set # es) = Suc (token_writes es)"
| "token_writes (_ # es) = token_writes es"

text \<open>
  The waits that fit the state: none when stopped or executing, one that is not
  cancelled when running, one whose cancellation was requested in the cancelling states.
  Of a destroyed object at most one wait is left, and its cancellation was requested.
\<close>

definition wakeups_ok :: "periodic_timer \<Rightarrow> bool" where
  "wakeups_ok t =
     (if was_destroyed t
      then map snd (timer t) = [] \<or> map snd (timer t) = [True]
      else map snd (timer t) =
             (case state t of
                stopped \<Rightarrow> []
              | running \<Rightarrow> [False]
              | executing \<Rightarrow> []
              | canceling_to_stop \<Rightarrow> [True]
              | canceling_to_start \<Rightarrow> [True]
              | canceling_to_ff \<Rightarrow> [True]))"

text \<open>
  The object after the execution step; \<open>execute_executed\<close> below shows that the
  execution step returns it, and so never reads a destroyed object.
\<close>

definition executed :: "periodic_timer \<Rightarrow> periodic_timer" where
  "executed t =
     (let t1 = t\<lparr>state := executing\<rparr>
      in case handler t1 of
           None \<Rightarrow> start t1
         | Some b \<Rightarrow>
             (let t2 = invoke b t1
              in if \<not> was_destroyed t2 \<and> state t2 = executing then start t2 else t2))"

text \<open>
  What holds of the object between any two calls on it: its waits fit its state, no
  wait was ever started over another one, the flag was written once if the object is
  destroyed and never otherwise, and a destroyed object was not left executing.
\<close>

definition sound :: "periodic_timer \<Rightarrow> bool" where
  "sound t =
     (wakeups_ok t \<and>
      most_outstanding_at_start (trace t) = 0 \<and>
      token_writes (trace t) = (if was_destroyed t then 1 else 0) \<and>
      (was_destroyed t \<longrightarrow> state t \<noteq> executing))"

section \<open>Lemmas on the state machine\<close>

lemma start_unfold:
  "start t =
     (case state t of
        stopped \<Rightarrow> do_start t
      | running \<Rightarrow>
          t\<lparr>state := canceling_to_start,
            timer := timer_cancel (timer t),
            trace := trace t @ [cancel_called]\<rparr>
      | executing \<Rightarrow> do_start t
      | canceling_to_stop \<Rightarrow> t\<lparr>state := canceling_to_start\<rparr>
      | canceling_to_start \<Rightarrow> t
      | canceling_to_ff \<Rightarrow> t\<lparr>state := canceling_to_start\<rparr>)"
proof (cases "state t")
  case running
  then have "start t = start (stop t)"
    by (subst start.simps) simp
  also have "\<dots> = (stop t)\<lparr>state := canceling_to_start\<rparr>"
    using running by (subst start.simps) (simp add: stop_def)
  finally show ?thesis
    using running by (simp add: stop_def)
qed (subst start.simps, simp)+

lemma most_outstanding_at_start_append [simp]:
  "most_outstanding_at_start (xs @ ys) =
     max (most_outstanding_at_start xs) (most_outstanding_at_start ys)"
  by (induction xs rule: most_outstanding_at_start.induct) simp_all

lemma invocations_append [simp]:
  "invocations (xs @ ys) = invocations xs @ invocations ys"
  by (induction xs rule: invocations.induct) simp_all

lemma cancellations_append [simp]:
  "cancellations (xs @ ys) = cancellations xs + cancellations ys"
  by (induction xs rule: cancellations.induct) simp_all

lemma token_writes_append [simp]:
  "token_writes (xs @ ys) = token_writes xs + token_writes ys"
  by (induction xs rule: token_writes.induct) simp_all

lemmas machine_defs =
  start_unfold stop_def do_start_def fast_forward_def destructor_def
  set_period_def set_handler_def timer_cancel_def

subsection \<open>The flag\<close>

lemma was_destroyed_stop [simp]: "was_destroyed (stop t) = was_destroyed t"
  by (cases "state t") (simp_all add: stop_def)

lemma was_destroyed_start [simp]: "was_destroyed (start t) = was_destroyed t"
  by (cases "state t") (simp_all add: start_unfold do_start_def)

lemma run_handler_destroyed [simp]: "was_destroyed t \<Longrightarrow> run_handler b t = t"
  by (cases b) simp_all

lemma run_handler_append:
  "run_handler (b @ c) t = run_handler c (run_handler b t)"
  by (induction b arbitrary: t) simp_all

subsection \<open>No public call invokes the handler\<close>

lemma invocations_stop [simp]: "invocations (trace (stop t)) = invocations (trace t)"
  by (cases "state t") (simp_all add: stop_def)

lemma invocations_start [simp]: "invocations (trace (start t)) = invocations (trace t)"
  by (cases "state t") (simp_all add: start_unfold do_start_def)

lemma invocations_perform [simp]:
  "invocations (trace (perform a t)) = invocations (trace t)"
  by (cases a) (simp_all add: fast_forward_def destructor_def set_period_def set_handler_def Let_def)

lemma invocations_run_handler [simp]:
  "invocations (trace (run_handler b t)) = invocations (trace t)"
  by (induction b arbitrary: t) simp_all

subsection \<open>Soundness is kept\<close>

lemma sound_stop: "sound t \<Longrightarrow> \<not> was_destroyed t \<Longrightarrow> sound (stop t)"
  by (cases "state t") (auto simp: sound_def wakeups_ok_def stop_def timer_cancel_def)

lemma sound_start: "sound t \<Longrightarrow> \<not> was_destroyed t \<Longrightarrow> sound (start t)"
  by (cases "state t")
     (auto simp: sound_def wakeups_ok_def start_unfold do_start_def timer_cancel_def)

lemma sound_fast_forward: "sound t \<Longrightarrow> \<not> was_destroyed t \<Longrightarrow> sound (fast_forward t)"
  by (cases "state t")
     (auto simp: sound_def wakeups_ok_def fast_forward_def start_unfold stop_def
        do_start_def timer_cancel_def)

lemma sound_destructor: "sound t \<Longrightarrow> \<not> was_destroyed t \<Longrightarrow> sound (destructor t)"
  by (cases "state t")
     (auto simp: sound_def wakeups_ok_def destructor_def stop_def timer_cancel_def)

lemma sound_perform: "sound t \<Longrightarrow> \<not> was_destroyed t \<Longrightarrow> sound (perform a t)"
proof (cases a)
  case (call_set_period d)
  assume "sound t"
  then show ?thesis
    using call_set_period by (auto simp: sound_def wakeups_ok_def set_period_def)
next
  case (call_set_handler h)
  assume "sound t"
  then show ?thesis
    using call_set_handler by (auto simp: sound_def wakeups_ok_def set_handler_def)
qed (simp_all add: sound_stop sound_start sound_fast_forward sound_destructor)

lemma sound_run_handler: "sound t \<Longrightarrow> sound (run_handler b t)"
  by (induction b arbitrary: t) (simp_all add: sound_perform)

lemma state_perform_not_executing:
  "state t \<noteq> executing \<Longrightarrow> state (perform a t) \<noteq> executing"
  by (cases a; cases "state t")
     (simp_all add: machine_defs)

lemma execute_executed: "execute t = Inr (executed t)"
  by (cases "handler t") (simp_all add: execute_def executed_def this_state_def Let_def)

lemma sound_executed:
  assumes "sound (t\<lparr>state := executing\<rparr>)" and "\<not> was_destroyed t"
  shows "sound (executed t) \<and> state (executed t) \<noteq> executing"
proof (cases "handler t")
  case None
  then have "executed t = start (t\<lparr>state := executing\<rparr>)"
    by (simp add: executed_def)
  moreover have "sound (start (t\<lparr>state := executing\<rparr>))"
    using assms by (simp add: sound_start)
  ultimately show ?thesis
    by (simp add: start_unfold do_start_def)
next
  case (Some b)
  define t1 where "t1 = t\<lparr>state := executing, trace := trace t @ [handler_invoked b]\<rparr>"
  define t2 where "t2 = run_handler b t1"
  have "sound t1"
    using assms by (simp add: t1_def sound_def wakeups_ok_def)
  then have s2: "sound t2"
    by (simp add: t2_def sound_run_handler)
  have ex: "executed t =
      (if was_destroyed t2 then t2 else if state t2 = executing then start t2 else t2)"
    using Some by (simp add: executed_def invoke_def t1_def t2_def)
  show ?thesis
  proof (cases "was_destroyed t2")
    case True
    then show ?thesis using ex s2 by (simp add: sound_def)
  next
    case False
    show ?thesis
    proof (cases "state t2 = executing")
      case True
      have "sound (start t2)"
        using s2 False by (rule sound_start)
      moreover have "state (start t2) = running"
        using True by (simp add: start_unfold do_start_def)
      ultimately show ?thesis
        using ex False True by simp
    next
      case ne: False
      then show ?thesis using ex s2 False by simp
    qed
  qed
qed

lemma sound_timer_cases:
  "sound t \<Longrightarrow> timer t = [] \<or> (\<exists>w. timer t = [w])"
  by (cases "timer t"; cases "tl (timer t)"; cases "state t")
     (auto simp: sound_def wakeups_ok_def split: if_splits)

lemma sound_deliver:
  assumes "sound t" and "state t \<noteq> executing"
  shows "\<exists>t'. deliver ndebug i t = Inr t' \<and> sound t' \<and> state t' \<noteq> executing"
proof (cases "i < length (timer t)")
  case False
  then show ?thesis using assms by (simp add: deliver_def)
next
  case True
  then obtain w where w: "timer t = [w]" and i: "i = 0"
    using sound_timer_cases [OF assms(1)] by auto
  define u where "u = t\<lparr>timer := []\<rparr>"
  have d: "deliver ndebug i t = wait_handler ndebug u"
    using w i by (simp add: deliver_def u_def)
  show ?thesis
  proof (cases "was_destroyed t")
    case True
    then show ?thesis
      using d assms by (simp add: wait_handler_def u_def sound_def wakeups_ok_def)
  next
    case False
    have su: "sound (u\<lparr>state := executing\<rparr>)"
      using assms False by (simp add: u_def sound_def wakeups_ok_def)
    have nd: "\<not> was_destroyed u" using False by (simp add: u_def)
    show ?thesis
    proof (cases "state t")
      case stopped
      then show ?thesis using assms False w by (simp add: sound_def wakeups_ok_def)
    next
      case running
      then show ?thesis
        using d nd sound_executed [OF su nd]
        by (simp add: wait_handler_def do_handle_tick_def execute_executed u_def)
    next
      case executing
      then show ?thesis using assms by simp
    next
      case canceling_to_stop
      then show ?thesis
        using d assms False
        by (simp add: wait_handler_def do_handle_tick_def u_def sound_def wakeups_ok_def)
    next
      case canceling_to_start
      then show ?thesis
        using d assms False
        by (simp add: wait_handler_def do_handle_tick_def u_def sound_def wakeups_ok_def
              do_start_def timer_cancel_def)
    next
      case canceling_to_ff
      then show ?thesis
        using d nd sound_executed [OF su nd]
        by (simp add: wait_handler_def do_handle_tick_def execute_executed u_def)
    qed
  qed
qed

lemma sound_step:
  assumes "sound t" and "state t \<noteq> executing"
  shows "\<exists>t'. step ndebug e t = Inr t' \<and> sound t' \<and> state t' \<noteq> executing"
proof (cases e)
  case (client a)
  then show ?thesis
    using assms by (simp add: sound_perform state_perform_not_executing)
next
  case (completion i)
  then show ?thesis
    using sound_deliver [OF assms, of ndebug] by simp
qed

lemma sound_run:
  "sound t \<Longrightarrow> state t \<noteq> executing \<Longrightarrow>
   \<exists>t'. run ndebug es t = Inr t' \<and> sound t' \<and> state t' \<noteq> executing"
proof (induction es arbitrary: t)
  case Nil
  then show ?case by simp
next
  case (Cons e es)
  from sound_step [OF Cons.prems, of ndebug e]
  obtain u where "step ndebug e t = Inr u" "sound u" "state u \<noteq> executing"
    by blast
  with Cons.IH [of u] show ?case by simp
qed

lemma sound_ctor: "sound (periodic_timer_ctor_handler p h)"
  by (simp add: sound_def wakeups_ok_def periodic_timer_ctor_handler_def)

subsection \<open>The waits through a handler body, and a destroyed object\<close>



lemma destroyed_run:
  "was_destroyed t \<Longrightarrow> \<exists>ws. run ndebug es t = Inr (t\<lparr>timer := ws\<rparr>)"
proof (induction es arbitrary: t)
  case Nil
  have "t = t\<lparr>timer := timer t\<rparr>" by simp
  then show ?case by (metis run.simps(1))
next
  case (Cons e es)
  have "\<exists>ws. step ndebug e t = Inr (t\<lparr>timer := ws\<rparr>)"
  proof (cases e)
    case (client a)
    have "t = t\<lparr>timer := timer t\<rparr>" by simp
    then show ?thesis using client Cons.prems by (metis step.simps(1))
  next
    case (completion i)
    show ?thesis
    proof (cases "i < length (timer t)")
      case True
      then have "step ndebug e t =
          Inr (t\<lparr>timer := take i (timer t) @ drop (Suc i) (timer t)\<rparr>)"
        using completion Cons.prems by (simp add: deliver_def wait_handler_def)
      then show ?thesis by (rule exI)
    next
      case False
      have "t = t\<lparr>timer := timer t\<rparr>" by simp
      then show ?thesis
        using completion False by (metis deliver_def step.simps(2))
    qed
  qed
  then obtain ws where ws: "step ndebug e t = Inr (t\<lparr>timer := ws\<rparr>)" ..
  from Cons.IH [of "t\<lparr>timer := ws\<rparr>"] Cons.prems
  obtain ws' where "run ndebug es (t\<lparr>timer := ws\<rparr>) = Inr (t\<lparr>timer := ws'\<rparr>)"
    by auto
  then have "run ndebug (e # es) t = Inr (t\<lparr>timer := ws'\<rparr>)"
    using ws by simp
  then show ?case by (rule exI)
qed

subsection \<open>A tick\<close>

lemma invocations_executed:
  "invocations (trace (executed t)) =
     invocations (trace t) @ (case handler t of None \<Rightarrow> [] | Some b \<Rightarrow> [b])"
  by (cases "handler t") (simp_all add: executed_def invoke_def Let_def)

lemma deliver_tick:
  assumes "\<not> was_destroyed t" and "wakeups_ok t"
    and "state t = running \<or> state t = canceling_to_ff"
  shows "deliver ndebug 0 t = Inr (executed (t\<lparr>timer := []\<rparr>))"
proof -
  have "length (map snd (timer t)) = 1"
    using assms by (auto simp: wakeups_ok_def)
  then have "length (timer t) = 1"
    by simp
  then show ?thesis
    using assms(1,3)
    by (auto simp: deliver_def wait_handler_def do_handle_tick_def execute_executed)
qed

section \<open>Properties of the timer\<close>

text \<open>
  C1. Whatever the client calls (\<^verbatim>\<open>start\<close>, \<^verbatim>\<open>stop\<close>, \<^verbatim>\<open>fast_forward\<close>, the
  setters, the destructor), from outside or from inside a handler of any body, and
  whichever completions the reactor delivers in between, in either build, the run does
  not abort and reads no destroyed object, at most
  one wait is outstanding afterwards, and every entry into \<^verbatim>\<open>do_start\<close> on the way
  (the only place where a wait is started) found no wait outstanding. As this holds of
  every sequence of events, it holds after each of its prefixes.
\<close>

theorem single_pending_wakeup:
  "\<exists>t. run ndebug es (periodic_timer_ctor_handler p h) = Inr t \<and>
       length (timer t) \<le> 1 \<and>
       most_outstanding_at_start (trace t) = 0"
proof -
  obtain t where t: "run ndebug es (periodic_timer_ctor_handler p h) = Inr t" "sound t"
    using sound_run [OF sound_ctor, of p h ndebug es]
    by (auto simp: periodic_timer_ctor_handler_def)
  have "length (timer t) \<le> 1"
    using sound_timer_cases [OF t(2)] by auto
  then show ?thesis
    using t by (simp add: sound_def)
qed

text \<open>
  C2. \<^verbatim>\<open>fast_forward\<close> invokes no handler, in whatever state it is called: the
  invocations recorded after the call are those recorded before it, and the state is
  \<^verbatim>\<open>canceling_to_ff\<close>. If the object is alive, its waits fit its state and a handler
  \<open>b\<close> is set, then the call leaves exactly one wait, with its cancellation requested,
  and the delivery of that wait's completion invokes \<open>b\<close>, once.
\<close>

theorem fast_forward_asynchronous:
  "invocations (trace (fast_forward t)) = invocations (trace t) \<and>
   state (fast_forward t) = canceling_to_ff \<and>
   (\<not> was_destroyed t \<and> wakeups_ok t \<and> handler t = Some b \<longrightarrow>
      (\<exists>d. timer (fast_forward t) = [(d, True)]) \<and>
      (\<exists>t'. deliver ndebug 0 (fast_forward t) = Inr t' \<and>
            invocations (trace t') = invocations (trace t) @ [b]))"
proof -
  have a: "invocations (trace (fast_forward t)) = invocations (trace t)"
    by (simp add: fast_forward_def)
  have s: "state (fast_forward t) = canceling_to_ff"
    by (simp add: fast_forward_def)
  have h: "handler (fast_forward t) = handler t"
    and w: "was_destroyed (fast_forward t) = was_destroyed t"
    by (cases "state t"; simp add: machine_defs)+
  {
    assume alive: "\<not> was_destroyed t" and ok: "wakeups_ok t" and hb: "handler t = Some b"
    have tm: "\<exists>d. timer (fast_forward t) = [(d, True)]"
      using alive ok
      by (cases "state t") (auto simp: wakeups_ok_def machine_defs)
    then obtain d where d: "timer (fast_forward t) = [(d, True)]" ..
    define u where "u = (fast_forward t)\<lparr>timer := []\<rparr>"
    have "deliver ndebug 0 (fast_forward t) = Inr (executed u)"
      using d s w alive
      by (simp add: deliver_def wait_handler_def do_handle_tick_def execute_executed u_def)
    moreover have "invocations (trace (executed u)) = invocations (trace t) @ [b]"
      using hb h a by (simp add: invocations_executed u_def)
    ultimately have "\<exists>t'. deliver ndebug 0 (fast_forward t) = Inr t' \<and>
            invocations (trace t') = invocations (trace t) @ [b]"
      by simp
    note tm this
  }
  then show ?thesis using a s by blast
qed

theorem fast_forward_asynchronous_witness:
  "\<not> was_destroyed (start (periodic_timer_ctor_handler 5 (Some [call_stop]))) \<and>
   wakeups_ok (start (periodic_timer_ctor_handler 5 (Some [call_stop]))) \<and>
   handler (start (periodic_timer_ctor_handler 5 (Some [call_stop]))) = Some [call_stop] \<and>
   (\<exists>t'. deliver False 0 (fast_forward (start (periodic_timer_ctor_handler 5 (Some [call_stop]))))
           = Inr t' \<and>
         invocations (trace t') = [[call_stop]])"
  using fast_forward_asynchronous
          [where t = "start (periodic_timer_ctor_handler 5 (Some [call_stop]))"
             and b = "[call_stop]" and ndebug = False]
  by (simp add: periodic_timer_ctor_handler_def wakeups_ok_def start_unfold do_start_def
        timer_cancel_def)

text \<open>
  C3, as the specification has it: a tick in state \<^verbatim>\<open>executing\<close> always aborts
  the program. It does not in a build with \<^verbatim>\<open>NDEBUG\<close>: there the tick, at an
  object in state \<^verbatim>\<open>executing\<close>, runs the handler and restarts the timer, and the
  delivery returns as any other.
\<close>

theorem tick_while_executing_counterexample:
  "state ((periodic_timer_ctor_handler 3 (Some [call_set_period 4]))
            \<lparr>state := executing, timer := [(3, True)]\<rparr>) = executing \<and>
   do_handle_tick True
     ((periodic_timer_ctor_handler 3 (Some [call_set_period 4]))\<lparr>state := executing\<rparr>) =
     Inr \<lparr>state = running, period_duration = 4, timer = [(4, False)],
          handler = Some [call_set_period 4], was_destroyed = False,
          trace = [handler_invoked [call_set_period 4], wait_scheduled 4 0]\<rparr> \<and>
   run True [completion 0]
     ((periodic_timer_ctor_handler 3 (Some [call_set_period 4]))
        \<lparr>state := executing, timer := [(3, True)]\<rparr>) =
     Inr \<lparr>state = running, period_duration = 4, timer = [(4, False)],
          handler = Some [call_set_period 4], was_destroyed = False,
          trace = [handler_invoked [call_set_period 4], wait_scheduled 4 0]\<rparr>"
  by (simp add: periodic_timer_ctor_handler_def do_handle_tick_def deliver_def
        wait_handler_def execute_def invoke_def this_state_def machine_defs)

text \<open>
  C3, amended. A tick in state \<^verbatim>\<open>executing\<close> runs into \<^verbatim>\<open>assert(0)\<close>. In a build
  with assertions (\<^verbatim>\<open>NDEBUG\<close> not defined) \<^verbatim>\<open>do_handle_tick\<close> aborts, and so does
  the delivery of a completion to a live object in that state; the abort ends the run,
  whatever events would have followed. In a build with \<^verbatim>\<open>NDEBUG\<close> the tick goes
  on to the execution step.
\<close>

theorem tick_while_executing:
  "state t = executing \<Longrightarrow>
     do_handle_tick ndebug t = (if ndebug then execute t else Inl assertion_failed) \<and>
     (\<not> ndebug \<and> \<not> was_destroyed t \<and> i < length (timer t) \<longrightarrow>
        deliver ndebug i t = Inl assertion_failed \<and>
        run ndebug (completion i # es) t = Inl assertion_failed)"
  by (simp add: do_handle_tick_def deliver_def wait_handler_def)

theorem tick_while_executing_witness:
  "state ((periodic_timer_ctor 3)\<lparr>state := executing, timer := [(3, False)]\<rparr>) = executing \<and>
   \<not> was_destroyed ((periodic_timer_ctor 3)\<lparr>state := executing, timer := [(3, False)]\<rparr>) \<and>
   (0::nat) < length (timer ((periodic_timer_ctor 3)\<lparr>state := executing, timer := [(3, False)]\<rparr>)) \<and>
   do_handle_tick False ((periodic_timer_ctor 3)\<lparr>state := executing, timer := [(3, False)]\<rparr>)
     = Inl assertion_failed \<and>
   run False [completion 0, client call_start]
     ((periodic_timer_ctor 3)\<lparr>state := executing, timer := [(3, False)]\<rparr>)
     = Inl assertion_failed"
  using tick_while_executing
    [where t = "(periodic_timer_ctor 3)\<lparr>state := executing, timer := [(3, False)]\<rparr>"
       and i = 0 and es = "[client call_start]" and ndebug = False]
  by (simp add: periodic_timer_ctor_def)

text \<open>
  C4. After any sequence of events the flag \<^verbatim>\<open>was_destroyed\<close> has been written once
  if the object is destroyed, and never otherwise. Of a destroyed object every wait
  still outstanding has had its cancellation requested, the completion callback returns
  the object as it is, and no later event changes anything of it: only the reactor's
  list of outstanding waits shrinks.
\<close>

theorem liveness_token:
  "\<exists>t. run ndebug es (periodic_timer_ctor_handler p h) = Inr t \<and>
       token_writes (trace t) = (if was_destroyed t then 1 else 0) \<and>
       (was_destroyed t \<longrightarrow>
          list_all snd (timer t) \<and>
          wait_handler ndebug t = Inr t \<and>
          (\<forall>es'. \<exists>ws. run ndebug es' t = Inr (t\<lparr>timer := ws\<rparr>)))"
proof -
  obtain t where t: "run ndebug es (periodic_timer_ctor_handler p h) = Inr t" "sound t"
    using sound_run [OF sound_ctor, of p h ndebug es]
    by (auto simp: periodic_timer_ctor_handler_def)
  have "list_all snd (timer t)" if "was_destroyed t"
    using that t(2) sound_timer_cases [OF t(2)]
    by (auto simp: sound_def wakeups_ok_def)
  moreover have "wait_handler ndebug t = Inr t" if "was_destroyed t"
    using that by (simp add: wait_handler_def)
  ultimately show ?thesis
    using t destroyed_run [of t ndebug] by (auto simp: sound_def)
qed

theorem liveness_token_witness:
  "\<exists>t. run False [client call_start, client call_destroy, completion 0]
          (periodic_timer_ctor_handler 5 None) = Inr t \<and>
       was_destroyed t \<and>
       token_writes (trace t) = 1 \<and>
       run False [completion 0, client call_start] ((destructor (start (periodic_timer_ctor_handler 5 None))))
         = Inr ((destructor (start (periodic_timer_ctor_handler 5 None)))\<lparr>timer := []\<rparr>)"
  using liveness_token
    [where es = "[client call_start, client call_destroy, completion 0]"
       and p = 5 and h = None and ndebug = False]
  by (simp add: periodic_timer_ctor_handler_def machine_defs deliver_def wait_handler_def)



text \<open>
  C6. \<^verbatim>\<open>stop\<close> in state \<^verbatim>\<open>executing\<close> only sets the state to \<^verbatim>\<open>stopped\<close>: the
  waits and the number of \<^verbatim>\<open>timer.cancel()\<close> calls are as before, and a live object
  whose waits fit its state has no wait then. If a handler body ends in this call,
  made while the state is still \<^verbatim>\<open>executing\<close>, the tick ends with the object as the
  body left it, stopped: the check after the handler does not restart the timer.
\<close>

theorem stop_inside_handler:
  "(state t = executing \<longrightarrow>
      stop t = t\<lparr>state := stopped\<rparr> \<and>
      timer (stop t) = timer t \<and>
      cancellations (trace (stop t)) = cancellations (trace t) \<and>
      (wakeups_ok t \<and> \<not> was_destroyed t \<longrightarrow> timer t = [])) \<and>
   (\<not> was_destroyed t \<and> (state t = running \<or> state t = canceling_to_ff) \<and>
    handler t = Some (b @ [call_stop]) \<and>
    u = run_handler b
          (t\<lparr>state := executing,
             trace := trace t @ [handler_invoked (b @ [call_stop])]\<rparr>) \<and>
    \<not> was_destroyed u \<and> state u = executing \<longrightarrow>
      do_handle_tick ndebug t = Inr (u\<lparr>state := stopped\<rparr>))"
proof -
  have call: "state t = executing \<longrightarrow>
      stop t = t\<lparr>state := stopped\<rparr> \<and>
      timer (stop t) = timer t \<and>
      cancellations (trace (stop t)) = cancellations (trace t) \<and>
      (wakeups_ok t \<and> \<not> was_destroyed t \<longrightarrow> timer t = [])"
    by (simp add: stop_def wakeups_ok_def)
  have "do_handle_tick ndebug t = Inr (u\<lparr>state := stopped\<rparr>)"
    if "state t = running \<or> state t = canceling_to_ff"
      and h: "handler t = Some (b @ [call_stop])"
      and u: "u = run_handler b
          (t\<lparr>state := executing,
             trace := trace t @ [handler_invoked (b @ [call_stop])]\<rparr>)"
      and alive: "\<not> was_destroyed u" and ex: "state u = executing"
  proof -
    have "do_handle_tick ndebug t = Inr (executed t)"
      using that(1) by (auto simp: do_handle_tick_def execute_executed)
    moreover have "invoke (b @ [call_stop]) (t\<lparr>state := executing\<rparr>) = stop u"
      using alive by (simp add: invoke_def run_handler_append u)
    moreover have "stop u = u\<lparr>state := stopped\<rparr>"
      using ex by (simp add: stop_def)
    ultimately show ?thesis
      using h alive by (simp add: executed_def Let_def)
  qed
  with call show ?thesis
    by blast
qed

theorem stop_inside_handler_witness:
  "state ((periodic_timer_ctor 5)\<lparr>state := executing\<rparr>) = executing \<and>
   stop ((periodic_timer_ctor 5)\<lparr>state := executing\<rparr>) = periodic_timer_ctor 5 \<and>
   do_handle_tick False
     ((set_handler (Some [call_set_period 2, call_stop]) (start (periodic_timer_ctor 5)))
        \<lparr>timer := []\<rparr>) =
     Inr \<lparr>state = stopped, period_duration = 2, timer = [],
          handler = Some [call_set_period 2, call_stop], was_destroyed = False,
          trace = [wait_scheduled 5 0, handler_invoked [call_set_period 2, call_stop]]\<rparr>"
  using
    stop_inside_handler
      [where t = "(periodic_timer_ctor 5)\<lparr>state := executing\<rparr>" and b = "[]"
         and u = "(periodic_timer_ctor 5)\<lparr>state := executing\<rparr>" and ndebug = False]
    stop_inside_handler
      [where t = "(set_handler (Some [call_set_period 2, call_stop])
                     (start (periodic_timer_ctor 5)))\<lparr>timer := []\<rparr>"
         and b = "[call_set_period 2]" and ndebug = False
         and u = "run_handler [call_set_period 2]
             ((set_handler (Some [call_set_period 2, call_stop])
                 (start (periodic_timer_ctor 5)))
                \<lparr>timer := [], state := executing,
                  trace := [wait_scheduled 5 0,
                            handler_invoked [call_set_period 2, call_stop]]\<rparr>)"]
  by (simp add: periodic_timer_ctor_def machine_defs)

text \<open>
  C7. \<^verbatim>\<open>start\<close> in state \<^verbatim>\<open>running\<close> calls \<^verbatim>\<open>timer.cancel()\<close> once, leaves the
  state \<^verbatim>\<open>canceling_to_start\<close> and starts no wait. The new wait is started by
  \<^verbatim>\<open>do_start\<close> when the completion of a wait is delivered to the live object in that
  state.
\<close>

theorem restart_while_running:
  "state t = running \<Longrightarrow>
     start t = t\<lparr>state := canceling_to_start,
                 timer := timer_cancel (timer t),
                 trace := trace t @ [cancel_called]\<rparr> \<and>
     cancellations (trace (start t)) = Suc (cancellations (trace t)) \<and>
     most_outstanding_at_start (trace (start t)) = most_outstanding_at_start (trace t) \<and>
     length (timer (start t)) = length (timer t) \<and>
     (\<not> was_destroyed t \<and> i < length (timer t) \<longrightarrow>
        deliver ndebug i (start t) =
          Inr (do_start
                 ((start t)\<lparr>timer := take i (timer (start t)) @
                                      drop (Suc i) (timer (start t))\<rparr>)))"
  by (simp add: start_unfold timer_cancel_def deliver_def wait_handler_def do_handle_tick_def)

theorem restart_while_running_witness:
  "state (start (periodic_timer_ctor 5)) = running \<and>
   start (start (periodic_timer_ctor 5)) =
     \<lparr>state = canceling_to_start, period_duration = 5, timer = [(5, True)],
      handler = None, was_destroyed = False,
      trace = [wait_scheduled 5 0, cancel_called]\<rparr> \<and>
   deliver False 0 (start (start (periodic_timer_ctor 5))) =
     Inr \<lparr>state = running, period_duration = 5, timer = [(5, False)],
          handler = None, was_destroyed = False,
          trace = [wait_scheduled 5 0, cancel_called, wait_scheduled 5 0]\<rparr>"
  using restart_while_running
    [where t = "start (periodic_timer_ctor 5)" and i = 0 and ndebug = False]
  by (simp add: periodic_timer_ctor_def machine_defs)

text \<open>
  C8. \<^verbatim>\<open>stop\<close> on a stopped timer returns the object as it is. From any state,
  \<^verbatim>\<open>stop\<close> ends in \<^verbatim>\<open>stopped\<close> or \<^verbatim>\<open>canceling_to_stop\<close>, and a second
  \<^verbatim>\<open>stop\<close> changes nothing.
\<close>

theorem stop_idempotent:
  "(state t = stopped \<longrightarrow> stop t = t) \<and>
   (state (stop t) = stopped \<or> state (stop t) = canceling_to_stop) \<and>
   stop (stop t) = stop t"
  by (cases "state t") (simp_all add: stop_def)

theorem stop_idempotent_witness:
  "state (periodic_timer_ctor 5) = stopped \<and>
   stop (periodic_timer_ctor 5) = periodic_timer_ctor 5 \<and>
   stop (stop (start (periodic_timer_ctor 5))) = stop (start (periodic_timer_ctor 5))"
  using stop_idempotent [of "periodic_timer_ctor 5"]
    stop_idempotent [of "start (periodic_timer_ctor 5)"]
  by (simp add: periodic_timer_ctor_def)

text \<open>
  C9. \<^verbatim>\<open>set_period\<close> leaves the outstanding waits, the state and the trace as they
  are; the next \<^verbatim>\<open>do_start\<close> starts its wait with the new period. The execution
  step invokes the handler that was set when it began, whatever the body does. A body
  that calls \<^verbatim>\<open>set_handler\<close> goes on with its own remaining calls. If the body is
  the single call \<^verbatim>\<open>set_handler(h')\<close>, the tick invokes that body, leaves \<open>h'\<close> as
  the handler and the timer running, and the next tick invokes \<open>h'\<close> (nothing, if
  \<open>h'\<close> is empty).
\<close>

theorem handler_and_period_replaced:
  "timer (set_period d t) = timer t \<and>
   state (set_period d t) = state t \<and>
   trace (set_period d t) = trace t \<and>
   last (timer (do_start (set_period d t))) = (d, False) \<and>
   (\<exists>t'. execute t = Inr t' \<and>
      invocations (trace t') =
        invocations (trace t) @ (case handler t of None \<Rightarrow> [] | Some b \<Rightarrow> [b])) \<and>
   (\<not> was_destroyed t \<longrightarrow>
      run_handler (call_set_handler h' # rest) t = run_handler rest (t\<lparr>handler := h'\<rparr>)) \<and>
   (\<not> was_destroyed t \<and> wakeups_ok t \<and>
    (state t = running \<or> state t = canceling_to_ff) \<and>
    handler t = Some [call_set_handler h'] \<longrightarrow>
      (\<exists>t1 t2. deliver ndebug 0 t = Inr t1 \<and> handler t1 = h' \<and> state t1 = running \<and>
         deliver ndebug 0 t1 = Inr t2 \<and>
         invocations (trace t2) =
           invocations (trace t) @ [[call_set_handler h']] @
             (case h' of None \<Rightarrow> [] | Some b' \<Rightarrow> [b'])))"
proof -
  have period: "timer (set_period d t) = timer t \<and>
      state (set_period d t) = state t \<and>
      trace (set_period d t) = trace t \<and>
      last (timer (do_start (set_period d t))) = (d, False)"
    by (simp add: set_period_def do_start_def)
  have body: "run_handler (call_set_handler h' # rest) t = run_handler rest (t\<lparr>handler := h'\<rparr>)"
    if "\<not> was_destroyed t"
    using that by (simp add: set_handler_def)
  have ticks: "\<exists>t1 t2. deliver ndebug 0 t = Inr t1 \<and> handler t1 = h' \<and> state t1 = running \<and>
         deliver ndebug 0 t1 = Inr t2 \<and>
         invocations (trace t2) =
           invocations (trace t) @ [[call_set_handler h']] @
             (case h' of None \<Rightarrow> [] | Some b' \<Rightarrow> [b'])"
    if alive: "\<not> was_destroyed t" and ok: "wakeups_ok t"
      and st: "state t = running \<or> state t = canceling_to_ff"
      and h: "handler t = Some [call_set_handler h']"
  proof -
    define t1 where "t1 = executed (t\<lparr>timer := []\<rparr>)"
    have d1: "deliver ndebug 0 t = Inr t1"
      unfolding t1_def using alive ok st by (rule deliver_tick)
    have t1: "t1 = do_start (t\<lparr>timer := [], state := executing,
                trace := trace t @ [handler_invoked [call_set_handler h']],
                handler := h'\<rparr>)"
      using alive h
      by (simp add: t1_def executed_def invoke_def set_handler_def start_unfold Let_def)
    then have p1: "handler t1 = h'" "state t1 = running" "\<not> was_destroyed t1" "wakeups_ok t1"
      "invocations (trace t1) = invocations (trace t) @ [[call_set_handler h']]"
      using alive by (simp_all add: do_start_def wakeups_ok_def timer_cancel_def)
    have d2: "deliver ndebug 0 t1 = Inr (executed (t1\<lparr>timer := []\<rparr>))"
      using p1 by (simp add: deliver_tick)
    have "invocations (trace (executed (t1\<lparr>timer := []\<rparr>))) =
        invocations (trace t) @ [[call_set_handler h']] @
             (case h' of None \<Rightarrow> [] | Some b' \<Rightarrow> [b'])"
      using p1 by (simp add: invocations_executed)
    with d1 d2 p1 show ?thesis by blast
  qed
  have step: "\<exists>t'. execute t = Inr t' \<and>
      invocations (trace t') =
        invocations (trace t) @ (case handler t of None \<Rightarrow> [] | Some b \<Rightarrow> [b])"
    by (simp add: execute_executed invocations_executed)
  show ?thesis
    using period step body ticks by blast
qed

theorem handler_and_period_replaced_witness:
  "\<not> was_destroyed (set_handler (Some [call_set_handler (Some [call_stop])])
                       (start (periodic_timer_ctor 5))) \<and>
   wakeups_ok (set_handler (Some [call_set_handler (Some [call_stop])])
                       (start (periodic_timer_ctor 5))) \<and>
   state (set_handler (Some [call_set_handler (Some [call_stop])])
                       (start (periodic_timer_ctor 5))) = running \<and>
   (\<exists>t1 t2. deliver False 0 (set_handler (Some [call_set_handler (Some [call_stop])])
                       (start (periodic_timer_ctor 5))) = Inr t1 \<and>
       handler t1 = Some [call_stop] \<and>
       deliver False 0 t1 = Inr t2 \<and>
       invocations (trace t2) = [[call_set_handler (Some [call_stop])], [call_stop]])"
  using handler_and_period_replaced
    [where d = 5 and h' = "Some [call_stop]" and rest = "[]" and ndebug = False
       and t = "set_handler (Some [call_set_handler (Some [call_stop])])
                       (start (periodic_timer_ctor 5))"]
  by (simp add: periodic_timer_ctor_def machine_defs wakeups_ok_def) blast

text \<open>
  C10. With no handler set, a tick in state \<^verbatim>\<open>running\<close> or \<^verbatim>\<open>canceling_to_ff\<close>
  sets the state to \<^verbatim>\<open>executing\<close> and calls \<^verbatim>\<open>start\<close>, which starts the next
  wait: the timer is running again and no handler was invoked. Delivered to a live
  object whose waits fit its state, the tick leaves exactly the new wait outstanding.
\<close>

theorem unset_handler_keeps_ticking:
  assumes "handler t = None"
    and "state t = running \<or> state t = canceling_to_ff"
  shows "do_handle_tick ndebug t = Inr (start (t\<lparr>state := executing\<rparr>)) \<and>
     do_handle_tick ndebug t =
       Inr (t\<lparr>state := running,
              timer := timer_cancel (timer t) @ [(period_duration t, False)],
              trace := trace t @ [wait_scheduled (period_duration t) (length (timer t))]\<rparr>) \<and>
     (\<not> was_destroyed t \<and> wakeups_ok t \<longrightarrow>
        (\<exists>t'. deliver ndebug 0 t = Inr t' \<and> state t' = running \<and>
              timer t' = [(period_duration t, False)] \<and>
              invocations (trace t') = invocations (trace t)))"
proof -
  have ex: "executed t = start (t\<lparr>state := executing\<rparr>)"
    if "handler t = None" for t :: periodic_timer
    using that by (simp add: executed_def)
  have tick: "do_handle_tick ndebug t = Inr (start (t\<lparr>state := executing\<rparr>))"
    using assms ex [of t] by (auto simp: do_handle_tick_def execute_executed)
  have st: "start (t\<lparr>state := executing\<rparr>) =
      t\<lparr>state := running,
        timer := timer_cancel (timer t) @ [(period_duration t, False)],
        trace := trace t @ [wait_scheduled (period_duration t) (length (timer t))]\<rparr>"
    by (simp add: start_unfold do_start_def)
  have "\<exists>t'. deliver ndebug 0 t = Inr t' \<and> state t' = running \<and>
              timer t' = [(period_duration t, False)] \<and>
              invocations (trace t') = invocations (trace t)"
    if "\<not> was_destroyed t" "wakeups_ok t"
  proof -
    have "deliver ndebug 0 t = Inr (executed (t\<lparr>timer := []\<rparr>))"
      using that assms(2) by (rule deliver_tick)
    moreover have "executed (t\<lparr>timer := []\<rparr>) = start (t\<lparr>timer := [], state := executing\<rparr>)"
      using assms(1) ex [of "t\<lparr>timer := []\<rparr>"] by simp
    ultimately show ?thesis
      by (simp add: start_unfold do_start_def timer_cancel_def)
  qed
  then show ?thesis
    using tick st by simp
qed

theorem unset_handler_keeps_ticking_witness:
  "handler (start (periodic_timer_ctor 5)) = None \<and>
   state (start (periodic_timer_ctor 5)) = running \<and>
   \<not> was_destroyed (start (periodic_timer_ctor 5)) \<and>
   wakeups_ok (start (periodic_timer_ctor 5)) \<and>
   deliver False 0 (start (periodic_timer_ctor 5)) =
     Inr \<lparr>state = running, period_duration = 5, timer = [(5, False)],
          handler = None, was_destroyed = False,
          trace = [wait_scheduled 5 0, wait_scheduled 5 0]\<rparr>"
  using unset_handler_keeps_ticking
    [where t = "start (periodic_timer_ctor 5)" and ndebug = False]
  by (simp add: periodic_timer_ctor_def machine_defs wakeups_ok_def deliver_def
        wait_handler_def do_handle_tick_def execute_def)

end
